theory Spec2Isabelle
  imports Main "HOL-Library.AList"
begin

section \<open>Strings and the code pattern\<close>

text \<open>
  A JavaScript string is a sequence of UTF-16 code units. Here a \<^typ>\<open>char\<close> stands for
  one code unit, so \<^const>\<open>length\<close> and every index count what \<open>lastIndex\<close> counts; the
  code units a \<^typ>\<open>char\<close> can hold are those below 256.

  The pattern of \<open>helpers.js\<close> is \<^verbatim>\<open>/\w+-\d+/g\<close>, without the \<open>i\<close> and \<open>u\<close> flags:
  \<^verbatim>\<open>\w\<close> is \<open>[A-Za-z0-9_]\<close> and \<^verbatim>\<open>\d\<close> is \<open>[0-9]\<close>.
\<close>

definition word_char :: "char \<Rightarrow> bool" where
  "word_char c =
     (c \<in> set ''abcdefghijklmnopqrstuvwxyzABCDEFGHIJKLMNOPQRSTUVWXYZ0123456789_'')"

definition digit_char :: "char \<Rightarrow> bool" where
  "digit_char c = (c \<in> set ''0123456789'')"

text \<open>
  The backtracking matcher, tried at the head of a string; the result is the length of
  the match. \<open>match_tail\<close> is the rest of the pattern, \<^verbatim>\<open>-\d+\<close>: a hyphen and the longest
  run of digits, one at least (\<^verbatim>\<open>\d+\<close> is greedy and ends the pattern, so its first try
  is the one that succeeds). \<open>match_word n\<close> is \<^verbatim>\<open>\w+\<close> taking \<open>n\<close> characters and giving
  one back after each failure of the rest; \<open>match_at\<close> starts it at the longest run of
  word characters.
\<close>

definition match_tail :: "string \<Rightarrow> nat option" where
  "match_tail s =
     (case s of
        [] \<Rightarrow> None
      | c # t \<Rightarrow>
          if c = CHR ''-''
          then (let n = length (takeWhile digit_char t)
                in if n = 0 then None else Some (Suc n))
          else None)"

fun match_word :: "nat \<Rightarrow> string \<Rightarrow> nat option" where
  "match_word 0 s = None"
| "match_word (Suc n) s =
     (case match_tail (drop (Suc n) s) of
        Some k \<Rightarrow> Some (Suc n + k)
      | None \<Rightarrow> match_word n s)"

definition match_at :: "string \<Rightarrow> nat option" where
  "match_at s = match_word (length (takeWhile word_char s)) s"

text \<open>
  The search for the leftmost match: the matcher is tried at each position in turn. The
  result is the offset of the match and its length. The pattern has no anchor and no
  look-behind, so a try at a position reads the string from that position on only.
\<close>

fun search :: "string \<Rightarrow> (nat \<times> nat) option" where
  "search [] = None"
| "search (c # cs) =
     (case match_at (c # cs) of
        Some n \<Rightarrow> Some (0, n)
      | None \<Rightarrow>
          (case search cs of
             None \<Rightarrow> None
           | Some (i, n) \<Rightarrow> Some (Suc i, n)))"

text \<open>
  \<open>RegExp.prototype.exec\<close> of a global pattern, as far as the code uses it: the search
  starts at \<open>lastIndex\<close> and fails at once when \<open>lastIndex\<close> is beyond the end of the
  string. The result is the index of the match and the index of its end.
\<close>

definition regex_exec :: "string \<Rightarrow> nat \<Rightarrow> (nat \<times> nat) option" where
  "regex_exec s lastIndex =
     (if length s < lastIndex then None
      else (case search (drop lastIndex s) of
              None \<Rightarrow> None
            | Some (i, n) \<Rightarrow> Some (lastIndex + i, lastIndex + i + n)))"

text \<open>
  \<open>regex.test(s)\<close> on a global pattern reads and writes the pattern's \<open>lastIndex\<close>: a
  match leaves it at the end of the match, a failure resets it to 0. The model takes the
  \<open>lastIndex\<close> before the call and returns the one after it.
\<close>

definition regex_test :: "nat \<Rightarrow> string \<Rightarrow> bool \<times> nat" where
  "regex_test lastIndex s =
     (case regex_exec s lastIndex of
        None \<Rightarrow> (False, 0)
      | Some (b, e) \<Rightarrow> (True, e))"

text \<open>
  \<open>toUpperCase\<close>. The code applies it to matches of the pattern only, which consist of
  ASCII letters, digits, underscores and one hyphen; on these it changes the letters
  \<open>a\<close> to \<open>z\<close> and nothing else.
\<close>

definition upper_char :: "char \<Rightarrow> char" where
  "upper_char c =
     (case map_of (zip ''abcdefghijklmnopqrstuvwxyz'' ''ABCDEFGHIJKLMNOPQRSTUVWXYZ'') c of
        None \<Rightarrow> c
      | Some u \<Rightarrow> u)"

definition toUpperCase :: "string \<Rightarrow> string" where
  "toUpperCase s = map upper_char s"

section \<open>Commits\<close>

text \<open>
  A commit as \<open>getCommitsUntil\<close> builds it. The date is a moment object; the code
  subtracts two of them, which reads each as its number of milliseconds.
\<close>

record commit =
  date :: int
  author :: string
  summary :: string

section \<open>The filter step\<close>

text \<open>
  \<open>filterMissingJiras\<close> creates one pattern object, with \<open>lastIndex = 0\<close>, and calls
  \<open>regex.test\<close> with it on the summary of each commit in turn: \<open>filter_from\<close> is the
  loop of \<open>Array.prototype.filter\<close>, carrying the \<open>lastIndex\<close> of that object from one
  call to the next.
\<close>

fun filter_from :: "nat \<Rightarrow> commit list \<Rightarrow> commit list" where
  "filter_from lastIndex [] = []"
| "filter_from lastIndex (c # cs) =
     (case regex_test lastIndex (summary c) of
        (True, lastIndex') \<Rightarrow> c # filter_from lastIndex' cs
      | (False, lastIndex') \<Rightarrow> filter_from lastIndex' cs)"

definition filterMissingJiras :: "commit list \<Rightarrow> commit list" where
  "filterMissingJiras commits = filter_from 0 commits"

section \<open>The group step\<close>

lemma match_tail_bounds: "match_tail s = Some k \<Longrightarrow> 2 \<le> k \<and> k \<le> length s"
proof (cases s)
  case Nil
  assume "match_tail s = Some k"
  with Nil show ?thesis by (simp add: match_tail_def)
next
  case (Cons c t)
  assume m: "match_tail s = Some k"
  have "length (takeWhile digit_char t) \<le> length t"
    by (rule length_takeWhile_le)
  with m Cons show ?thesis
    by (auto simp: match_tail_def Let_def Suc_le_eq split: if_splits)
qed

lemma match_word_bounds: "match_word n s = Some k \<Longrightarrow> 0 < k \<and> k \<le> length s"
proof (induction n)
  case 0
  then show ?case by simp
next
  case (Suc n)
  show ?case
  proof (cases "match_tail (drop (Suc n) s)")
    case None
    with Suc show ?thesis by simp
  next
    case (Some j)
    from match_tail_bounds [OF Some] have "2 \<le> j" and "j \<le> length s - Suc n" by simp_all
    with Suc.prems Some show ?thesis by auto
  qed
qed

lemma search_bounds: "search s = Some (i, n) \<Longrightarrow> 0 < n \<and> i + n \<le> length s"
proof (induction s arbitrary: i)
  case Nil
  then show ?case by simp
next
  case (Cons c cs)
  show ?case
  proof (cases "match_at (c # cs)")
    case (Some k)
    with Cons.prems have "i = 0" and "n = k" by simp_all
    moreover from Some have "0 < k \<and> k \<le> length (c # cs)"
      unfolding match_at_def by (rule match_word_bounds)
    ultimately show ?thesis by simp
  next
    case None
    with Cons.prems obtain j where "search cs = Some (j, n)" and "i = Suc j"
      by (auto split: option.splits)
    with Cons.IH [of j] show ?thesis by simp
  qed
qed

lemma regex_exec_bounds:
  "regex_exec s lastIndex = Some (b, e) \<Longrightarrow> lastIndex \<le> b \<and> b < e \<and> e \<le> length s"
proof -
  assume r: "regex_exec s lastIndex = Some (b, e)"
  then have le: "lastIndex \<le> length s"
    by (auto simp: regex_exec_def split: if_splits)
  from r obtain i n where s: "search (drop lastIndex s) = Some (i, n)"
    and b: "b = lastIndex + i" and e: "e = lastIndex + i + n"
    by (auto simp: regex_exec_def split: if_splits option.splits)
  from search_bounds [OF s] have "0 < n" and "i + n \<le> length s - lastIndex" by simp_all
  with le b e show ?thesis by simp
qed

text \<open>
  \<open>summary.match(/\w+-\d+/g)\<close>: the pattern is a fresh object, so the loop starts at
  \<open>lastIndex = 0\<close>; each match is collected and the next search starts at its end (a
  match of this pattern is never empty, so the step that moves past an empty match is
  never taken). The result is \<open>null\<close> when there is no match at all.
\<close>

function match_loop :: "string \<Rightarrow> nat \<Rightarrow> string list" where
  "match_loop s lastIndex =
     (case regex_exec s lastIndex of
        None \<Rightarrow> []
      | Some (b, e) \<Rightarrow> take (e - b) (drop b s) # match_loop s e)"
  by pat_completeness auto

termination
proof (relation "measure (\<lambda>(s, lastIndex). Suc (length s) - lastIndex)")
  show "wf (measure (\<lambda>(s, lastIndex). Suc (length s) - lastIndex))" by simp
next
  fix s :: string and lastIndex :: nat and x2 :: "nat \<times> nat" and b e :: nat
  assume "regex_exec s lastIndex = Some x2" and "(b, e) = x2"
  then have "regex_exec s lastIndex = Some (b, e)" by simp
  from regex_exec_bounds [OF this] have "lastIndex < e" and "e \<le> length s"
    by simp_all
  then have "Suc (length s) - e < Suc (length s) - lastIndex"
    by arith
  then show "((s, e), (s, lastIndex)) \<in> measure (\<lambda>(s, lastIndex). Suc (length s) - lastIndex)"
    by simp
qed

declare match_loop.simps [simp del]

definition string_match :: "string \<Rightarrow> string list option" where
  "string_match s = (case match_loop s 0 of [] \<Rightarrow> None | m # ms \<Rightarrow> Some (m # ms))"

text \<open>
  The object \<open>jiraMap\<close> is an association list in the order of \<open>Object.keys\<close>. A key
  of it is a match of the pattern in upper case: it holds a hyphen, so it is never an
  array index (which \<open>Object.keys\<close> would list first) nor the name of a property that
  \<open>Object.prototype\<close> gives to every object, and the keys are listed in the order of
  their creation. \<^const>\<open>AList.update\<close> writes a property as the object does: in
  place when the key is there, at the end when it is new.
\<close>

type_synonym jira_map = "(string \<times> commit list) list"

definition push_commit :: "commit \<Rightarrow> jira_map \<Rightarrow> string \<Rightarrow> jira_map" where
  "push_commit commit jiraMap jira =
     (let code = toUpperCase jira
      in case map_of jiraMap code of
           None \<Rightarrow> AList.update code ([] @ [commit]) (AList.update code [] jiraMap)
         | Some commitList \<Rightarrow> AList.update code (commitList @ [commit]) jiraMap)"

definition add_commit :: "jira_map \<Rightarrow> commit \<Rightarrow> jira_map" where
  "add_commit jiraMap commit =
     (case string_match (summary commit) of
        None \<Rightarrow> jiraMap
      | Some jiras \<Rightarrow> foldl (push_commit commit) jiraMap jiras)"

definition mapCommitsToJiras :: "commit list \<Rightarrow> jira_map" where
  "mapCommitsToJiras commits = foldl add_commit [] commits"

section \<open>The metadata fetcher\<close>

text \<open>
  What \<open>client.findIssue(code)\<close> settles to is a rejection or a value parsed from the
  tracker's JSON answer; reading a property that is not there gives \<open>undefined\<close>. A
  number is kept as the text that \<open>ToString\<close> gives for it. An object is the list of
  its own properties, each name once.
\<close>

datatype error = TypeError | RequestError

datatype jsval =
    JUndefined
  | JNull
  | JBool bool
  | JNum string
  | JStr string
  | JArr "jsval list"
  | JObj "(string \<times> jsval) list"

text \<open>
  \<open>v.k\<close>, for the property names of \<open>fetchJiraMetadata\<close> (\<open>fields\<close>, \<open>summary\<close>,
  \<open>status\<close>, \<open>name\<close>, \<open>fixVersions\<close>, \<open>assignee\<close>, \<open>displayName\<close>): no prototype of
  a parsed JSON value defines one of them, so an object gives its own property or
  \<open>undefined\<close>, every other value but \<open>undefined\<close> and \<open>null\<close> gives \<open>undefined\<close>,
  and these two throw.
\<close>

fun get_prop :: "jsval \<Rightarrow> string \<Rightarrow> error + jsval" where
  "get_prop JUndefined k = Inl TypeError"
| "get_prop JNull k = Inl TypeError"
| "get_prop (JObj ps) k = (case map_of ps k of None \<Rightarrow> Inr JUndefined | Some v \<Rightarrow> Inr v)"
| "get_prop v k = Inr JUndefined"

text \<open>\<open>v.map(f)\<close>: only an array has a \<open>map\<close> to call; the first exception of \<open>f\<close> ends it.\<close>

fun map_err :: "('a \<Rightarrow> error + 'b) \<Rightarrow> 'a list \<Rightarrow> error + 'b list" where
  "map_err f [] = Inr []"
| "map_err f (x # xs) =
     (case f x of
        Inl e \<Rightarrow> Inl e
      | Inr y \<Rightarrow> (case map_err f xs of Inl e \<Rightarrow> Inl e | Inr ys \<Rightarrow> Inr (y # ys)))"

definition array_map :: "(jsval \<Rightarrow> error + jsval) \<Rightarrow> jsval \<Rightarrow> error + jsval list" where
  "array_map f v = (case v of JArr xs \<Rightarrow> map_err f xs | _ \<Rightarrow> Inl TypeError)"

text \<open>
  \<open>ToString\<close> and \<open>Array.prototype.join\<close>. In a join, \<open>undefined\<close> and \<open>null\<close> give the
  empty string. An array is joined with commas. An object gives \<open>[object Object]\<close>
  unless it has an own property \<open>toString\<close>: that one is data, not a function, and the
  conversion throws.
\<close>

fun to_string :: "jsval \<Rightarrow> error + string"
  and join_vals :: "string \<Rightarrow> jsval list \<Rightarrow> error + string" where
  "to_string JUndefined = Inr ''undefined''"
| "to_string JNull = Inr ''null''"
| "to_string (JBool b) = Inr (if b then ''true'' else ''false'')"
| "to_string (JNum t) = Inr t"
| "to_string (JStr s) = Inr s"
| "to_string (JArr vs) = join_vals '','' vs"
| "to_string (JObj ps) =
     (case map_of ps ''toString'' of None \<Rightarrow> Inr ''[object Object]'' | Some f \<Rightarrow> Inl TypeError)"
| "join_vals sep [] = Inr []"
| "join_vals sep (v # vs) =
     (case (if v = JUndefined \<or> v = JNull then Inr [] else to_string v) of
        Inl e \<Rightarrow> Inl e
      | Inr a \<Rightarrow>
          (if vs = [] then Inr a
           else (case join_vals sep vs of Inl e \<Rightarrow> Inl e | Inr b \<Rightarrow> Inr (a @ sep @ b))))"

text \<open>The truth test of \<open>? :\<close> and \<open>||\<close>.\<close>

fun truthy :: "jsval \<Rightarrow> bool" where
  "truthy JUndefined = False"
| "truthy JNull = False"
| "truthy (JBool b) = b"
| "truthy (JNum t) = (t \<noteq> ''0'' \<and> t \<noteq> ''NaN'')"
| "truthy (JStr s) = (s \<noteq> [])"
| "truthy (JArr vs) = True"
| "truthy (JObj ps) = True"

record metadata =
  title :: jsval
  status :: jsval
  fixVersions :: string
  assignee :: jsval

text \<open>
  The callback of \<open>.then\<close> in \<open>fetchJiraMetadata\<close>; \<open>Inl\<close> is an exception thrown in
  it, which ends the evaluation at that point (\<open>and_then\<close>). The properties of the
  object literal are evaluated in the order written.
\<close>

definition and_then :: "error + 'a \<Rightarrow> ('a \<Rightarrow> error + 'b) \<Rightarrow> error + 'b" where
  "and_then r f = (case r of Inl e \<Rightarrow> Inl e | Inr x \<Rightarrow> f x)"

definition issue_metadata :: "jsval \<Rightarrow> error + metadata" where
  "issue_metadata issue =
     and_then (get_prop issue ''fields'') (\<lambda>issue_fields.
     and_then (get_prop issue_fields ''summary'') (\<lambda>summary_v.
     and_then (get_prop issue_fields ''status'') (\<lambda>status_v.
     and_then (get_prop status_v ''name'') (\<lambda>status_name.
     and_then (get_prop issue_fields ''fixVersions'') (\<lambda>versions.
     and_then (array_map (\<lambda>fv. get_prop fv ''name'') versions) (\<lambda>names.
     and_then (join_vals '', '' names) (\<lambda>joined.
     and_then (get_prop issue_fields ''assignee'') (\<lambda>assignee_v.
     and_then (if truthy assignee_v then get_prop assignee_v ''displayName''
               else Inr (JStr ''Unassigned'')) (\<lambda>assignee_name.
     Inr \<lparr>title = summary_v,
          status = status_name,
          fixVersions = (if joined = [] then ''No Fix Version'' else joined),
          assignee = assignee_name\<rparr>)))))))))"

text \<open>
  The client is what each lookup settles to: \<open>Inl\<close> a rejection, \<open>Inr\<close> the issue. The
  result of \<open>fetchJiraMetadata\<close> is what its promise settles to: \<open>Inl\<close> would be a
  rejection, \<open>Inr None\<close> is \<open>null\<close>. \<open>.catch\<close> comes after \<open>.then\<close>, so it receives the
  rejection of the lookup and the exception of the callback alike.
\<close>

type_synonym client = "string \<Rightarrow> error + jsval"

definition fetchJiraMetadata :: "string \<Rightarrow> client \<Rightarrow> error + metadata option" where
  "fetchJiraMetadata code client =
     (case (case client code of Inl e \<Rightarrow> Inl e | Inr issue \<Rightarrow> issue_metadata issue) of
        Inl e \<Rightarrow> Inr None
      | Inr jira \<Rightarrow> Inr (Some jira))"

section \<open>The aggregator\<close>

record issue_record = metadata +
  code :: string
  lastCommitDate :: int
  developers :: string
  commits :: nat

text \<open>
  \<open>commitList.sort((a, b) => b.date - a.date)\<close>: a stable sort with the comparator of
  the code, written as an insertion sort (the language leaves the algorithm open and asks
  for a stable one; with this comparator all stable sorts give the same array).
\<close>

definition by_date_desc :: "commit \<Rightarrow> commit \<Rightarrow> int" where
  "by_date_desc a b = date b - date a"

fun insert_by :: "('a \<Rightarrow> 'a \<Rightarrow> int) \<Rightarrow> 'a \<Rightarrow> 'a list \<Rightarrow> 'a list" where
  "insert_by cmp x [] = [x]"
| "insert_by cmp x (y # ys) =
     (if cmp x y \<le> 0 then x # y # ys else y # insert_by cmp x ys)"

definition array_sort :: "('a \<Rightarrow> 'a \<Rightarrow> int) \<Rightarrow> 'a list \<Rightarrow> 'a list" where
  "array_sort cmp xs = foldr (insert_by cmp) xs []"

text \<open>\<open>[...new Set(xs)]\<close>: a set keeps each value once, in the order of the first adds.\<close>

definition set_add :: "'a list \<Rightarrow> 'a \<Rightarrow> 'a list" where
  "set_add s x = (if x \<in> set s then s else s @ [x])"

definition new_Set :: "'a list \<Rightarrow> 'a list" where
  "new_Set xs = foldl set_add [] xs"

fun array_join :: "string \<Rightarrow> string list \<Rightarrow> string" where
  "array_join sep [] = []"
| "array_join sep [x] = x"
| "array_join sep (x # y # ys) = x @ sep @ array_join sep (y # ys)"

text \<open>
  The body of \<open>if (jira) { ... }\<close>: the record pushed for one code. Reading \<open>.date\<close> of
  the first element of an empty array throws, as sorting \<open>undefined\<close> would. The sort is
  in place, so the authors and the length are read from the sorted array.
\<close>

definition issue_of :: "jira_map \<Rightarrow> string \<Rightarrow> metadata \<Rightarrow> error + issue_record" where
  "issue_of jiraMap code' jira =
     (case map_of jiraMap code' of
        None \<Rightarrow> Inl TypeError
      | Some commitList \<Rightarrow>
          (case array_sort by_date_desc commitList of
             [] \<Rightarrow> Inl TypeError
           | newest # older \<Rightarrow>
               Inr (metadata.extend jira
                     \<lparr>code = code',
                      lastCommitDate = date newest,
                      developers = array_join '', '' (new_Set (map author (newest # older))),
                      commits = length (newest # older)\<rparr>)))"

text \<open>
  The lookups are issued in the order of \<open>Object.keys(jiraMap)\<close> and \<open>settled code\<close> is
  the time at which the lookup of \<open>code\<close> settles. Each callback runs when its lookup
  has settled, so the callbacks run in the order of these times (in the order of issue
  where the times are equal), and each one pushes onto the same \<open>jiraList\<close>.
\<close>

definition settle_order :: "(string \<Rightarrow> nat) \<Rightarrow> string list \<Rightarrow> string list" where
  "settle_order settled codes = sort_key settled codes"

text \<open>
  \<open>Inl\<close> is an exception in a callback: \<open>Promise.all\<close> rejects, \<open>resolve\<close> is never
  called and the promise of \<open>aggregateJiraMetadata\<close> stays pending.
\<close>

fun run_callbacks ::
  "jira_map \<Rightarrow> client \<Rightarrow> issue_record list \<Rightarrow> string list \<Rightarrow> error + issue_record list" where
  "run_callbacks jiraMap client jiraList [] = Inr jiraList"
| "run_callbacks jiraMap client jiraList (c # cs) =
     (case fetchJiraMetadata c client of
        Inl e \<Rightarrow> Inl e
      | Inr None \<Rightarrow> run_callbacks jiraMap client jiraList cs
      | Inr (Some jira) \<Rightarrow>
          (case issue_of jiraMap c jira of
             Inl e \<Rightarrow> Inl e
           | Inr r \<Rightarrow> run_callbacks jiraMap client (jiraList @ [r]) cs))"

definition aggregateJiraMetadata ::
  "jira_map \<Rightarrow> client \<Rightarrow> (string \<Rightarrow> nat) \<Rightarrow> error + issue_record list" where
  "aggregateJiraMetadata jiraMap client settled =
     run_callbacks jiraMap client [] (settle_order settled (map fst jiraMap))"

section \<open>The presenter and the pipeline\<close>

text \<open>
  What the program writes with \<open>console.log\<close>: a line of text, or the rendering of a
  table, kept as the rows pushed into it (the header is fixed). The rendering itself is
  the table library's, and \<open>format_date\<close> stands for \<open>format('ddd D MMM')\<close> of the date
  library.
\<close>

datatype cell = Text string | Val jsval | Count nat

datatype printed = Line string | Table "cell list list"

definition table_row :: "(int \<Rightarrow> string) \<Rightarrow> issue_record \<Rightarrow> cell list" where
  "table_row format_date li =
     [Text (code li), Val (status li), Val (title li), Text (format_date (lastCommitDate li)),
      Text (developers li), Count (commits li), Text (fixVersions li), Val (assignee li)]"

text \<open>
  The table library renders a cell by calling the cell's \<open>toString\<close>: \<open>undefined\<close>
  and \<open>null\<close> have no method to call, and the conversion of any other value throws
  where \<open>ToString\<close> does. The title, the status and the assignee of a record are values
  of the tracker's answer, so they can be such cells.
\<close>

fun renders :: "cell \<Rightarrow> bool" where
  "renders (Text s) = True"
| "renders (Count n) = True"
| "renders (Val v) =
     (if v = JUndefined \<or> v = JNull then False
      else (case to_string v of Inl e \<Rightarrow> False | Inr t \<Rightarrow> True))"

text \<open>
  \<open>generateJiraTermTable\<close>: \<open>None\<close> is the argument \<open>undefined\<close>, on which
  \<open>jiraList.forEach\<close> throws before anything is written. On a list, the rows are
  pushed and \<open>table.toString()\<close> is evaluated before \<open>console.log\<close> is called with
  it: when a cell does not render, nothing is written.
\<close>

definition generateJiraTermTable ::
  "(int \<Rightarrow> string) \<Rightarrow> issue_record list option \<Rightarrow> error + printed list" where
  "generateJiraTermTable format_date jiraList =
     (case jiraList of
        None \<Rightarrow> Inl TypeError
      | Some lis \<Rightarrow>
          (let rows = map (table_row format_date) lis
           in if list_all (list_all renders) rows then Inr [Table rows]
              else Inl TypeError))"

text \<open>
  \<open>getCommitsUntil\<close>: the walk of the repository is the git library's; \<open>Inl\<close> is the
  message of the error it rejects with, \<open>Inr\<close> the commits it finds.
\<close>

definition getCommitsUntil :: "string + commit list \<Rightarrow> string + commit list" where
  "getCommitsUntil walk =
     (case walk of
        Inl message \<Rightarrow> Inl message
      | Inr commits' \<Rightarrow>
          if length commits' = 0
          then Inl ''Current repo does not exist or contains no commits''
          else Inr commits')"

text \<open>
  \<open>listJira\<close>: the lines written, and the exception the chain of promises is left with,
  if any. \<open>.catch\<close> writes the message and gives \<open>undefined\<close> to the last \<open>.then\<close>.
  When the aggregation stays pending, nothing after it runs.
\<close>

definition listJira ::
  "(int \<Rightarrow> string) \<Rightarrow> string + commit list \<Rightarrow> client \<Rightarrow> (string \<Rightarrow> nat)
     \<Rightarrow> printed list \<times> error option" where
  "listJira format_date walk client settled =
     (case getCommitsUntil walk of
        Inl message \<Rightarrow>
          (case generateJiraTermTable format_date None of
             Inl e \<Rightarrow> ([Line message], Some e)
           | Inr out \<Rightarrow> (Line message # out, None))
      | Inr commits' \<Rightarrow>
          (case aggregateJiraMetadata (mapCommitsToJiras (filterMissingJiras commits'))
                  client settled of
             Inl e \<Rightarrow> ([], Some e)
           | Inr jiraList \<Rightarrow>
               (case generateJiraTermTable format_date (Some jiraList) of
                  Inl e \<Rightarrow> ([], Some e)
                | Inr out \<Rightarrow> (out, None))))"

section \<open>The two steps with their objects\<close>

text \<open>
  For a claim about one run after another, the objects that could carry something from
  a run to the next are made explicit: the pattern objects created so far, each with its
  \<open>lastIndex\<close>, and the array of commits that the caller holds and gives to each run.
  A pattern object is referred to by its position in \<open>regexps\<close>.
\<close>

record js_heap =
  regexps :: "nat list"
  commit_array :: "commit list"

text \<open>
  Evaluating a pattern literal creates a new object with \<open>lastIndex = 0\<close>;
  \<open>regex.test\<close> reads the \<open>lastIndex\<close> of its object and writes it back.
\<close>

definition new_regex :: "js_heap \<Rightarrow> nat \<times> js_heap" where
  "new_regex h = (length (regexps h), h\<lparr>regexps := regexps h @ [0]\<rparr>)"

definition test_st :: "nat \<Rightarrow> string \<Rightarrow> js_heap \<Rightarrow> bool \<times> js_heap" where
  "test_st r s h =
     (case regex_test (regexps h ! r) s of
        (found, lastIndex') \<Rightarrow> (found, h\<lparr>regexps := (regexps h)[r := lastIndex']\<rparr>))"

text \<open>
  \<open>filterMissingJiras\<close>: the literal is evaluated once, at each call, and the loop of
  \<open>Array.prototype.filter\<close> calls \<open>test\<close> on that one object. The loop reads the
  array and builds a new one.
\<close>

fun filter_st :: "nat \<Rightarrow> commit list \<Rightarrow> js_heap \<Rightarrow> commit list \<times> js_heap" where
  "filter_st r [] h = ([], h)"
| "filter_st r (c # cs) h =
     (case test_st r (summary c) h of
        (found, h1) \<Rightarrow>
          (case filter_st r cs h1 of
             (kept, h2) \<Rightarrow> (if found then c # kept else kept, h2)))"

definition filterMissingJiras_st :: "js_heap \<Rightarrow> commit list \<times> js_heap" where
  "filterMissingJiras_st h =
     (case new_regex h of (regex, h1) \<Rightarrow> filter_st regex (commit_array h1) h1)"

text \<open>
  \<open>mapCommitsToJiras\<close>: the literal is in the callback of \<open>forEach\<close>, so each commit
  has its own object. \<open>match\<close> sets the \<open>lastIndex\<close> of a global pattern to 0, runs
  the loop of \<open>match_loop\<close> with it, and the last search, which fails, leaves it at 0.
\<close>

definition match_st :: "string \<Rightarrow> js_heap \<Rightarrow> string list option \<times> js_heap" where
  "match_st s h =
     (case new_regex h of
        (regex, h1) \<Rightarrow> (string_match s, h1\<lparr>regexps := (regexps h1)[regex := 0]\<rparr>))"

definition add_commit_st :: "jira_map \<times> js_heap \<Rightarrow> commit \<Rightarrow> jira_map \<times> js_heap" where
  "add_commit_st st commit =
     (case st of
        (jiraMap, h) \<Rightarrow>
          (case match_st (summary commit) h of
             (None, h1) \<Rightarrow> (jiraMap, h1)
           | (Some jiras, h1) \<Rightarrow> (foldl (push_commit commit) jiraMap jiras, h1)))"

definition mapCommitsToJiras_st :: "commit list \<Rightarrow> js_heap \<Rightarrow> jira_map \<times> js_heap" where
  "mapCommitsToJiras_st cs h = foldl add_commit_st ([], h) cs"

text \<open>
  One run of the two steps, as \<open>listJira\<close> chains them, on the array that the caller
  holds: the mapping, and the objects after the run.
\<close>

definition extract_and_group :: "js_heap \<Rightarrow> jira_map \<times> js_heap" where
  "extract_and_group h =
     (case filterMissingJiras_st h of
        (filtered, h1) \<Rightarrow> mapCommitsToJiras_st filtered h1)"

section \<open>The notions of the specification\<close>

text \<open>
  A summary contains a code when some substring of it is one or more word characters, a
  hyphen, and one or more digits.
\<close>

definition has_code :: "string \<Rightarrow> bool" where
  "has_code s =
     (\<exists>before w d after.
        s = before @ w @ ''-'' @ d @ after \<and>
        w \<noteq> [] \<and> list_all word_char w \<and> d \<noteq> [] \<and> list_all digit_char d)"

text \<open>
  The codes of a commit list, each with the commit it was found in: commit by commit,
  and within a summary from left to right. \<open>first_seen\<close> keeps the first occurrence of
  each element, \<open>commits_of k\<close> the commits paired with \<open>k\<close>, in their order;
  \<open>grouped\<close> is the mapping that the specification of the group step describes.
\<close>

definition code_pairs :: "commit list \<Rightarrow> (string \<times> commit) list" where
  "code_pairs cs =
     concat (map (\<lambda>c. map (\<lambda>jira. (toUpperCase jira, c)) (match_loop (summary c) 0)) cs)"

definition first_seen :: "'a list \<Rightarrow> 'a list" where
  "first_seen xs = rev (remdups (rev xs))"

definition commits_of :: "string \<Rightarrow> (string \<times> commit) list \<Rightarrow> commit list" where
  "commits_of k ps = map snd (filter (\<lambda>p. fst p = k) ps)"

definition grouped :: "(string \<times> commit) list \<Rightarrow> jira_map" where
  "grouped ps = map (\<lambda>k. (k, commits_of k ps)) (first_seen (map fst ps))"

text \<open>
  An issue as the tracker answers it, reduced to the properties that the fetcher reads:
  the summary, the name of the status, the names of the fix versions, and the display
  name of the assignee, \<open>null\<close> when there is none.
\<close>

definition jira_issue :: "jsval \<Rightarrow> jsval \<Rightarrow> string list \<Rightarrow> jsval option \<Rightarrow> jsval" where
  "jira_issue summary_v status_name version_names assignee_name =
     JObj [(''fields'',
            JObj [(''summary'', summary_v),
                  (''status'', JObj [(''name'', status_name)]),
                  (''fixVersions'', JArr (map (\<lambda>n. JObj [(''name'', JStr n)]) version_names)),
                  (''assignee'',
                     (case assignee_name of
                        None \<Rightarrow> JNull
                      | Some d \<Rightarrow> JObj [(''displayName'', d)]))])]"

section \<open>The inputs of the examples\<close>

text \<open>
  Three commits, the first two with the summaries of the specification's scenario; a
  tracker that knows every issue but \<open>DEF-2\<close>, and one that answers with a page of
  text; lookups of which the one for \<open>ABC-1\<close> settles last, and lookups that settle in
  the order of issue; a date format; and the records that the aggregator builds from
  these.
\<close>

definition open_issue :: jsval where
  "open_issue =
     JObj [(''fields'',
            JObj [(''summary'', JStr ''T1''),
                  (''status'', JObj [(''name'', JStr ''Open'')]),
                  (''fixVersions'', JArr []),
                  (''assignee'', JNull)])]"

definition tracker :: client where
  "tracker k = (if k = ''DEF-2'' then Inl RequestError else Inr open_issue)"

definition html_tracker :: client where
  "html_tracker k = Inr (JStr ''<html>'')"

definition second_first :: "string \<Rightarrow> nat" where
  "second_first k = (if k = ''ABC-1'' then 2 else 1)"

definition as_issued :: "string \<Rightarrow> nat" where
  "as_issued k = 0"

definition plain_date :: "int \<Rightarrow> string" where
  "plain_date d = ''Mon 1 Jan''"

definition monday :: commit where
  "monday = \<lparr>date = 1, author = ''A'', summary = ''fix ABC-1''\<rparr>"

definition tuesday :: commit where
  "tuesday = \<lparr>date = 2, author = ''B'', summary = ''ABC-1 rework, see DEF-2''\<rparr>"

definition wednesday :: commit where
  "wednesday = \<lparr>date = 3, author = ''A'', summary = ''GHI-3 start''\<rparr>"

definition abc_record :: issue_record where
  "abc_record =
     \<lparr>title = JStr ''T1'', status = JStr ''Open'', fixVersions = ''No Fix Version'',
      assignee = JStr ''Unassigned'', code = ''ABC-1'', lastCommitDate = 2,
      developers = ''B, A'', commits = 3\<rparr>"

definition scenario_record :: issue_record where
  "scenario_record =
     \<lparr>title = JStr ''T1'', status = JStr ''Open'', fixVersions = ''No Fix Version'',
      assignee = JStr ''Unassigned'', code = ''ABC-1'', lastCommitDate = 2,
      developers = ''B, A'', commits = 2\<rparr>"

definition ghi_record :: issue_record where
  "ghi_record =
     \<lparr>title = JStr ''T1'', status = JStr ''Open'', fixVersions = ''No Fix Version'',
      assignee = JStr ''Unassigned'', code = ''GHI-3'', lastCommitDate = 3,
      developers = ''A'', commits = 1\<rparr>"

section \<open>The matcher against the pattern\<close>

text \<open>
  The backtracking search finds a match exactly in the strings that contain a code, so a
  fresh pattern tests what the specification says; a pattern that resumes at a later
  \<open>lastIndex\<close> still accepts only summaries that contain a code.
\<close>

lemma not_word_hyphen: "\<not> word_char CHR ''-''"
  by (simp add: word_char_def)

lemma match_tail_Some:
  assumes "match_tail s = Some k"
  shows "\<exists>d rest. s = ''-'' @ d @ rest \<and> d \<noteq> [] \<and> list_all digit_char d"
proof -
  from assms obtain t where s: "s = CHR ''-'' # t" and ne: "takeWhile digit_char t \<noteq> []"
    by (cases s) (auto simp: match_tail_def Let_def split: if_splits)
  have "t = takeWhile digit_char t @ dropWhile digit_char t" by simp
  with s have "s = ''-'' @ takeWhile digit_char t @ dropWhile digit_char t" by simp
  moreover have "list_all digit_char (takeWhile digit_char t)"
    by (simp add: list_all_iff) (meson set_takeWhileD)
  ultimately show ?thesis using ne by blast
qed

lemma take_within_takeWhile:
  "n \<le> length (takeWhile P xs) \<Longrightarrow> list_all P (take n xs)"
proof (induction xs arbitrary: n)
  case Nil
  then show ?case by simp
next
  case (Cons x xs)
  then show ?case by (cases n) (auto split: if_splits)
qed

lemma match_word_Some:
  "match_word n s = Some k \<Longrightarrow> n \<le> length (takeWhile word_char s) \<Longrightarrow>
   \<exists>w d rest. s = w @ ''-'' @ d @ rest \<and> w \<noteq> [] \<and> list_all word_char w \<and>
              d \<noteq> [] \<and> list_all digit_char d"
proof (induction n)
  case 0
  then show ?case by simp
next
  case (Suc n)
  show ?case
  proof (cases "match_tail (drop (Suc n) s)")
    case None
    with Suc show ?thesis by simp
  next
    case (Some j)
    from match_tail_Some [OF Some] obtain d rest
      where t: "drop (Suc n) s = ''-'' @ d @ rest" and d: "d \<noteq> []" "list_all digit_char d"
      by blast
    have "s = take (Suc n) s @ drop (Suc n) s" by simp
    with t have s: "s = take (Suc n) s @ ''-'' @ d @ rest" by simp
    have "Suc n \<le> length s"
      using Suc.prems(2) length_takeWhile_le [of word_char s] by (rule order_trans)
    then have ne: "take (Suc n) s \<noteq> []" by auto
    from take_within_takeWhile [OF Suc.prems(2)] s ne d show ?thesis by blast
  qed
qed

lemma search_Some_has_code: "search s = Some (i, n) \<Longrightarrow> has_code s"
proof (induction s arbitrary: i)
  case Nil
  then show ?case by simp
next
  case (Cons c cs)
  show ?case
  proof (cases "match_at (c # cs)")
    case (Some k)
    then have "match_word (length (takeWhile word_char (c # cs))) (c # cs) = Some k"
      by (simp only: match_at_def)
    from match_word_Some [OF this] obtain w d rest
      where "c # cs = w @ ''-'' @ d @ rest" "w \<noteq> []" "list_all word_char w"
        "d \<noteq> []" "list_all digit_char d"
      by blast
    then have "c # cs = [] @ w @ ''-'' @ d @ rest \<and> w \<noteq> [] \<and> list_all word_char w \<and>
        d \<noteq> [] \<and> list_all digit_char d" by simp
    then show ?thesis unfolding has_code_def by blast
  next
    case None
    with Cons.prems obtain j where "search cs = Some (j, n)"
      by (auto split: option.splits)
    from Cons.IH [OF this] obtain before w d after
      where "cs = before @ w @ ''-'' @ d @ after" "w \<noteq> []" "list_all word_char w"
        "d \<noteq> []" "list_all digit_char d"
      unfolding has_code_def by blast
    then have "c # cs = (c # before) @ w @ ''-'' @ d @ after \<and> w \<noteq> [] \<and> list_all word_char w \<and>
        d \<noteq> [] \<and> list_all digit_char d" by simp
    then show ?thesis unfolding has_code_def by blast
  qed
qed

lemma match_at_code:
  assumes "w \<noteq> []" "list_all word_char w" "d \<noteq> []" "list_all digit_char d"
  shows "\<exists>k. match_at (w @ ''-'' @ d @ after) = Some k"
proof -
  let ?s = "w @ ''-'' @ d @ after"
  from assms(2) have tw: "takeWhile word_char ?s = w"
    by (simp add: list_all_iff not_word_hyphen)
  from assms(1) obtain m where m: "length w = Suc m" by (cases w) auto
  from assms(3,4) obtain x xs where d: "d = x # xs" and x: "digit_char x" by (cases d) auto
  have "drop (Suc m) ?s = ''-'' @ d @ after" using m [symmetric] by simp
  then have "match_tail (drop (Suc m) ?s) = Some (Suc (length (takeWhile digit_char (d @ after))))"
    by (simp add: match_tail_def d x)
  then have "match_word (Suc m) ?s = Some (Suc m + Suc (length (takeWhile digit_char (d @ after))))"
    by (simp only: match_word.simps option.case)
  moreover have "match_at ?s = match_word (Suc m) ?s"
    by (simp only: match_at_def tw m)
  ultimately show ?thesis by simp
qed

lemma search_append: "match_at x = Some k \<Longrightarrow> \<exists>r. search (before @ x) = Some r"
proof (induction before)
  case Nil
  then obtain c cs where "x = c # cs" by (cases x) (auto simp: match_at_def)
  with Nil show ?case by simp
next
  case (Cons b before)
  then show ?case by (cases "match_at (b # before @ x)") auto
qed

lemma search_iff_has_code: "(search s \<noteq> None) = has_code s"
proof
  assume "search s \<noteq> None"
  then obtain i n where "search s = Some (i, n)" by auto
  then show "has_code s" by (rule search_Some_has_code)
next
  assume "has_code s"
  then obtain before w d after
    where s: "s = before @ w @ ''-'' @ d @ after" and "w \<noteq> []" "list_all word_char w"
      "d \<noteq> []" "list_all digit_char d"
    unfolding has_code_def by blast
  from match_at_code [OF this(2-5)] obtain k
    where "match_at (w @ ''-'' @ d @ after) = Some k" by blast
  from search_append [OF this] show "search s \<noteq> None" unfolding s by auto
qed

lemma has_code_drop: "has_code (drop n s) \<Longrightarrow> has_code s"
proof -
  assume "has_code (drop n s)"
  then obtain before w d after
    where "drop n s = before @ w @ ''-'' @ d @ after" and c: "w \<noteq> []" "list_all word_char w"
      "d \<noteq> []" "list_all digit_char d"
    unfolding has_code_def by blast
  then have "s = (take n s @ before) @ w @ ''-'' @ d @ after"
    by (metis append_assoc append_take_drop_id)
  with c show ?thesis unfolding has_code_def by blast
qed

lemma regex_test_fresh: "fst (regex_test 0 s) = has_code s"
  using search_iff_has_code [of s]
  by (auto simp: regex_test_def regex_exec_def split: option.splits)

lemma regex_test_True: "regex_test lastIndex s = (True, e) \<Longrightarrow> has_code s"
proof -
  assume "regex_test lastIndex s = (True, e)"
  then have "search (drop lastIndex s) \<noteq> None"
    by (auto simp: regex_test_def regex_exec_def split: option.splits if_splits)
  then have "has_code (drop lastIndex s)" by (simp only: search_iff_has_code)
  then show ?thesis by (rule has_code_drop)
qed

lemma filter_from_sound:
  "c \<in> set (filter_from lastIndex cs) \<Longrightarrow> c \<in> set cs \<and> has_code (summary c)"
proof (induction cs arbitrary: lastIndex)
  case Nil
  then show ?case by simp
next
  case (Cons x cs)
  obtain b e where t: "regex_test lastIndex (summary x) = (b, e)" by (cases "regex_test lastIndex (summary x)")
  show ?case
  proof (cases b)
    case True
    with t have "has_code (summary x)" by (auto dest: regex_test_True)
    with Cons t True show ?thesis by auto
  next
    case False
    with Cons t show ?thesis by auto
  qed
qed

lemma filterMissingJiras_sound:
  "set (filterMissingJiras cs) \<subseteq> {c \<in> set cs. has_code (summary c)}"
  unfolding filterMissingJiras_def using filter_from_sound by blast

lemma string_match_iff_has_code: "(string_match s \<noteq> None) = has_code s"
proof -
  have "(match_loop s 0 = []) = (search s = None)"
    by (subst match_loop.simps) (auto simp: regex_exec_def split: option.splits)
  moreover have "(string_match s = None) = (match_loop s 0 = [])"
    by (simp add: string_match_def split: list.splits)
  ultimately have "(string_match s \<noteq> None) = (search s \<noteq> None)" by simp
  then show ?thesis by (simp only: search_iff_has_code)
qed

section \<open>The group step as a grouping\<close>

text \<open>
  \<open>put\<close> is one create-and-push step of the loop of \<open>mapCommitsToJiras\<close>; the loop
  over the commits and their matches is a fold of \<open>put\<close> over the pairs of codes and
  commits, and this fold computes \<open>grouped\<close>.
\<close>

definition put :: "jira_map \<Rightarrow> string \<times> commit \<Rightarrow> jira_map" where
  "put jiraMap p =
     AList.update (fst p)
       ((case map_of jiraMap (fst p) of None \<Rightarrow> [] | Some commitList \<Rightarrow> commitList) @ [snd p])
       jiraMap"

lemma push_commit_put: "push_commit c jiraMap jira = put jiraMap (toUpperCase jira, c)"
  by (simp add: push_commit_def put_def Let_def split: option.splits)

lemma add_commit_put:
  "add_commit jiraMap c =
     foldl put jiraMap (map (\<lambda>jira. (toUpperCase jira, c)) (match_loop (summary c) 0))"
proof -
  have fold: "foldl (push_commit c) jm js = foldl put jm (map (\<lambda>jira. (toUpperCase jira, c)) js)"
    for jm js
    by (induction js arbitrary: jm) (simp_all add: push_commit_put)
  have "add_commit jiraMap c = foldl (push_commit c) jiraMap (match_loop (summary c) 0)"
    by (cases "match_loop (summary c) 0") (simp_all add: add_commit_def string_match_def)
  then show ?thesis by (simp only: fold)
qed

lemma foldl_add_commit: "foldl add_commit jiraMap cs = foldl put jiraMap (code_pairs cs)"
  by (induction cs arbitrary: jiraMap) (simp_all add: code_pairs_def add_commit_put)

lemma mapCommitsToJiras_put: "mapCommitsToJiras cs = foldl put [] (code_pairs cs)"
  by (simp add: mapCommitsToJiras_def foldl_add_commit)

lemma first_seen_snoc:
  "first_seen (xs @ [x]) = (if x \<in> set (first_seen xs) then first_seen xs else first_seen xs @ [x])"
  by (simp add: first_seen_def)

lemma set_first_seen [simp]: "set (first_seen xs) = set xs"
  by (simp add: first_seen_def)

lemma distinct_first_seen [simp]: "distinct (first_seen xs)"
  by (simp add: first_seen_def)

lemma map_of_tabulate:
  "map_of (map (\<lambda>k. (k, f k)) ks) k = (if k \<in> set ks then Some (f k) else None)"
  by (induction ks) auto

lemma update_tabulate:
  "distinct ks \<Longrightarrow>
   AList.update k v (map (\<lambda>x. (x, f x)) ks) =
   map (\<lambda>x. (x, (f(k := v)) x)) (if k \<in> set ks then ks else ks @ [k])"
  by (induction ks) auto

lemma commits_of_snoc:
  "commits_of k' (ps @ [(k, c)]) = (if k' = k then commits_of k ps @ [c] else commits_of k' ps)"
  by (simp add: commits_of_def)

lemma commits_of_Nil_iff: "commits_of k ps = [] \<longleftrightarrow> k \<notin> fst ` set ps"
  by (induction ps) (auto simp: commits_of_def)

lemma put_grouped: "put (grouped ps) (k, c) = grouped (ps @ [(k, c)])"
proof -
  let ?ks = "first_seen (map fst ps)"
  have look: "(case map_of (grouped ps) k of None \<Rightarrow> [] | Some g \<Rightarrow> g) = commits_of k ps"
    using commits_of_Nil_iff [of k ps] by (auto simp: grouped_def map_of_tabulate)
  have fn: "(\<lambda>k'. commits_of k' (ps @ [(k, c)])) = (\<lambda>k'. commits_of k' ps)(k := commits_of k ps @ [c])"
    by (rule ext) (simp add: commits_of_snoc)
  have "put (grouped ps) (k, c) = AList.update k (commits_of k ps @ [c]) (grouped ps)"
    by (simp add: put_def look)
  also have "\<dots> = map (\<lambda>x. (x, ((\<lambda>k'. commits_of k' ps)(k := commits_of k ps @ [c])) x))
                     (if k \<in> set ?ks then ?ks else ?ks @ [k])"
    unfolding grouped_def by (rule update_tabulate) simp
  also have "\<dots> = grouped (ps @ [(k, c)])"
    unfolding grouped_def fn [symmetric] by (simp add: first_seen_snoc)
  finally show ?thesis .
qed

lemma foldl_put_grouped: "foldl put [] ps = grouped ps"
proof (induction ps rule: rev_induct)
  case Nil
  show ?case by (simp add: grouped_def first_seen_def)
next
  case (snoc p ps)
  obtain k c where p: "p = (k, c)" by (cases p)
  from snoc show ?case by (simp add: p put_grouped)
qed

lemma mapCommitsToJiras_eq_grouped: "mapCommitsToJiras cs = grouped (code_pairs cs)"
  by (simp add: mapCommitsToJiras_put foldl_put_grouped)

lemma grouped_nonempty: "\<forall>g \<in> snd ` set (grouped ps). g \<noteq> []"
  by (auto simp: grouped_def commits_of_Nil_iff)

section \<open>Lemmas on the fetcher\<close>

lemma fetch_cases:
  "fetchJiraMetadata k client = Inr None \<or> (\<exists>jira. fetchJiraMetadata k client = Inr (Some jira))"
  by (auto simp: fetchJiraMetadata_def split: sum.splits)

lemma and_then_Inr:
  assumes "and_then r f = Inr y"
  obtains x where "r = Inr x" and "f x = Inr y"
  using assms by (cases r) (simp_all add: and_then_def)

lemma and_then_simps [simp]:
  "and_then (Inl e) f = Inl e"
  "and_then (Inr x) f = f x"
  by (simp_all add: and_then_def)

lemma version_names:
  "map_err (\<lambda>fv. get_prop fv ''name'') (map (\<lambda>n. JObj [(''name'', JStr n)]) ns) = Inr (map JStr ns)"
  by (induction ns) simp_all

lemma join_vals_strings: "join_vals sep (map JStr ns) = Inr (array_join sep ns)"
  by (induction sep ns rule: array_join.induct) simp_all

lemma issue_metadata_jira_issue:
  "issue_metadata (jira_issue t s ns a) =
     Inr \<lparr>title = t, status = s,
          fixVersions = (if array_join '', '' ns = [] then ''No Fix Version''
                         else array_join '', '' ns),
          assignee = (case a of None \<Rightarrow> JStr ''Unassigned'' | Some d \<Rightarrow> d)\<rparr>"
  by (cases a)
    (simp_all add: issue_metadata_def jira_issue_def array_map_def version_names join_vals_strings)

lemma issue_metadata_defaults:
  assumes "issue_metadata issue = Inr jira"
  shows "\<exists>issue_fields status_v assignee_v.
           get_prop issue ''fields'' = Inr issue_fields \<and>
           get_prop issue_fields ''summary'' = Inr (title jira) \<and>
           get_prop issue_fields ''status'' = Inr status_v \<and>
           get_prop status_v ''name'' = Inr (status jira) \<and>
           get_prop issue_fields ''assignee'' = Inr assignee_v \<and>
           (get_prop issue_fields ''fixVersions'' = Inr (JArr []) \<longrightarrow>
              fixVersions jira = ''No Fix Version'') \<and>
           (\<not> truthy assignee_v \<longrightarrow> assignee jira = JStr ''Unassigned'')"
proof -
  from assms obtain fs where fs: "get_prop issue ''fields'' = Inr fs"
    and 1: "and_then (get_prop fs ''summary'') (\<lambda>summary_v.
     and_then (get_prop fs ''status'') (\<lambda>status_v.
     and_then (get_prop status_v ''name'') (\<lambda>status_name.
     and_then (get_prop fs ''fixVersions'') (\<lambda>versions.
     and_then (array_map (\<lambda>fv. get_prop fv ''name'') versions) (\<lambda>names.
     and_then (join_vals '', '' names) (\<lambda>joined.
     and_then (get_prop fs ''assignee'') (\<lambda>assignee_v.
     and_then (if truthy assignee_v then get_prop assignee_v ''displayName''
               else Inr (JStr ''Unassigned'')) (\<lambda>assignee_name.
     Inr \<lparr>title = summary_v,
          status = status_name,
          fixVersions = (if joined = [] then ''No Fix Version'' else joined),
          assignee = assignee_name\<rparr>)))))))) = Inr jira"
    unfolding issue_metadata_def by (rule and_then_Inr)
  from 1 obtain t where t: "get_prop fs ''summary'' = Inr t"
    and 2: "and_then (get_prop fs ''status'') (\<lambda>status_v.
     and_then (get_prop status_v ''name'') (\<lambda>status_name.
     and_then (get_prop fs ''fixVersions'') (\<lambda>versions.
     and_then (array_map (\<lambda>fv. get_prop fv ''name'') versions) (\<lambda>names.
     and_then (join_vals '', '' names) (\<lambda>joined.
     and_then (get_prop fs ''assignee'') (\<lambda>assignee_v.
     and_then (if truthy assignee_v then get_prop assignee_v ''displayName''
               else Inr (JStr ''Unassigned'')) (\<lambda>assignee_name.
     Inr \<lparr>title = t,
          status = status_name,
          fixVersions = (if joined = [] then ''No Fix Version'' else joined),
          assignee = assignee_name\<rparr>))))))) = Inr jira"
    by (rule and_then_Inr)
  from 2 obtain st sn vs ns joined av an where
    st: "get_prop fs ''status'' = Inr st" and
    sn: "get_prop st ''name'' = Inr sn" and
    vs: "get_prop fs ''fixVersions'' = Inr vs" and
    ns: "array_map (\<lambda>fv. get_prop fv ''name'') vs = Inr ns" and
    jn: "join_vals '', '' ns = Inr joined" and
    av: "get_prop fs ''assignee'' = Inr av" and
    an: "(if truthy av then get_prop av ''displayName'' else Inr (JStr ''Unassigned'')) = Inr an" and
    jira: "jira = \<lparr>title = t, status = sn,
          fixVersions = (if joined = [] then ''No Fix Version'' else joined),
          assignee = an\<rparr>"
    by (auto elim!: and_then_Inr)
  have fv: "fixVersions jira = ''No Fix Version''" if "get_prop fs ''fixVersions'' = Inr (JArr [])"
  proof -
    from that vs have "vs = JArr []" by simp
    with ns have "ns = []" by (simp add: array_map_def)
    with jn have "joined = []" by simp
    then show ?thesis by (simp add: jira)
  qed
  have un: "assignee jira = JStr ''Unassigned''" if "\<not> truthy av"
    using that an by (simp add: jira)
  have "title jira = t" and "status jira = sn" by (simp_all add: jira)
  with fs t st sn av fv un show ?thesis by blast
qed

section \<open>Lemmas on the aggregator\<close>

subsection \<open>The sort\<close>

lemma set_insert_by [simp]: "set (insert_by cmp x xs) = insert x (set xs)"
  by (induction xs) auto

lemma length_insert_by [simp]: "length (insert_by cmp x xs) = Suc (length xs)"
  by (induction xs) auto

lemma set_array_sort [simp]: "set (array_sort cmp xs) = set xs"
  by (induction xs) (simp_all add: array_sort_def)

lemma length_array_sort [simp]: "length (array_sort cmp xs) = length xs"
  by (induction xs) (simp_all add: array_sort_def)

lemma sorted_insert_by:
  "sorted_wrt (\<lambda>a b. date b \<le> date a) xs \<Longrightarrow>
   sorted_wrt (\<lambda>a b. date b \<le> date a) (insert_by by_date_desc x xs)"
  by (induction xs) (auto simp: by_date_desc_def)

lemma sorted_array_sort: "sorted_wrt (\<lambda>a b. date b \<le> date a) (array_sort by_date_desc xs)"
  by (induction xs) (simp_all add: array_sort_def sorted_insert_by)

lemma array_sort_newest:
  assumes "array_sort by_date_desc xs = newest # older"
  shows "date newest = Max (date ` set xs)"
proof -
  have s: "set xs = insert newest (set older)"
    using set_array_sort [of by_date_desc xs] assms by simp
  have "sorted_wrt (\<lambda>a b. date b \<le> date a) (newest # older)"
    using sorted_array_sort [of xs] assms by simp
  then have "\<forall>c \<in> set older. date c \<le> date newest" by simp
  with s have le: "\<And>d. d \<in> date ` set xs \<Longrightarrow> d \<le> date newest" by auto
  have mem: "date newest \<in> date ` set xs" using s by simp
  have "Max (date ` set xs) = date newest"
    by (rule Max_eqI) (simp_all add: le mem)
  then show ?thesis by simp
qed

subsection \<open>The set of authors\<close>

lemma foldl_set_add: "set (foldl set_add s xs) = set s \<union> set xs"
  by (induction xs arbitrary: s) (auto simp: set_add_def)

lemma distinct_foldl_set_add: "distinct s \<Longrightarrow> distinct (foldl set_add s xs)"
  by (induction xs arbitrary: s) (auto simp: set_add_def)

lemma set_new_Set [simp]: "set (new_Set xs) = set xs"
  by (simp add: new_Set_def foldl_set_add)

lemma distinct_new_Set [simp]: "distinct (new_Set xs)"
  by (simp add: new_Set_def distinct_foldl_set_add)

subsection \<open>The record of one code\<close>

lemma issue_of_Inr:
  assumes "issue_of jiraMap k jira = Inr r"
  shows "\<exists>g. map_of jiraMap k = Some g \<and> g \<noteq> [] \<and>
           code r = k \<and>
           commits r = length g \<and>
           lastCommitDate r = Max (date ` set g) \<and>
           developers r = array_join '', '' (new_Set (map author (array_sort by_date_desc g))) \<and>
           title r = title jira \<and> status r = status jira \<and>
           fixVersions r = fixVersions jira \<and> assignee r = assignee jira"
proof -
  from assms obtain g where g: "map_of jiraMap k = Some g"
    by (auto simp: issue_of_def split: option.splits)
  from assms g obtain newest older where s: "array_sort by_date_desc g = newest # older"
    by (auto simp: issue_of_def split: list.splits)
  from s have ne: "g \<noteq> []" by (auto simp: array_sort_def)
  have len: "length (newest # older) = length g"
    using length_array_sort [of by_date_desc g] s by simp
  from assms g s have r: "r = metadata.extend jira
                     \<lparr>code = k,
                      lastCommitDate = date newest,
                      developers = array_join '', '' (new_Set (map author (newest # older))),
                      commits = length (newest # older)\<rparr>"
    by (simp add: issue_of_def)
  show ?thesis
    using g ne len array_sort_newest [OF s] unfolding r
    by (simp add: s metadata.defs issue_record.defs)
qed

lemma issue_of_nonempty:
  assumes "map_of jiraMap k = Some g" and "g \<noteq> []"
  shows "\<exists>r. issue_of jiraMap k jira = Inr r"
proof -
  have "length (array_sort by_date_desc g) = length g" by simp
  with assms(2) obtain n ol where "array_sort by_date_desc g = n # ol"
    by (cases "array_sort by_date_desc g") auto
  with assms(1) show ?thesis by (simp add: issue_of_def)
qed

subsection \<open>The callbacks\<close>

lemma run_callbacks_codes:
  "run_callbacks jiraMap client acc cs = Inr rs \<Longrightarrow>
   map code rs = map code acc @ filter (\<lambda>k. fetchJiraMetadata k client \<noteq> Inr None) cs"
proof (induction cs arbitrary: acc)
  case Nil
  then show ?case by simp
next
  case (Cons k cs)
  from fetch_cases [of k client] show ?case
  proof
    assume n: "fetchJiraMetadata k client = Inr None"
    with Cons.prems have "run_callbacks jiraMap client acc cs = Inr rs" by simp
    from Cons.IH [OF this] n show ?thesis by simp
  next
    assume "\<exists>jira. fetchJiraMetadata k client = Inr (Some jira)"
    then obtain jira where j: "fetchJiraMetadata k client = Inr (Some jira)" ..
    with Cons.prems obtain r where r: "issue_of jiraMap k jira = Inr r"
      and rest: "run_callbacks jiraMap client (acc @ [r]) cs = Inr rs"
      by (auto split: sum.splits)
    from issue_of_Inr [OF r] have "code r = k" by blast
    with Cons.IH [OF rest] j show ?thesis by simp
  qed
qed

lemma run_callbacks_records:
  "run_callbacks jiraMap client acc cs = Inr rs \<Longrightarrow> r \<in> set rs \<Longrightarrow>
   r \<in> set acc \<or>
   (\<exists>jira. fetchJiraMetadata (code r) client = Inr (Some jira) \<and>
           issue_of jiraMap (code r) jira = Inr r \<and> code r \<in> set cs)"
proof (induction cs arbitrary: acc)
  case Nil
  then show ?case by simp
next
  case (Cons k cs)
  from fetch_cases [of k client] show ?case
  proof
    assume n: "fetchJiraMetadata k client = Inr None"
    with Cons.prems have "run_callbacks jiraMap client acc cs = Inr rs" by simp
    from Cons.IH [OF this Cons.prems(2)] show ?thesis by auto
  next
    assume "\<exists>jira. fetchJiraMetadata k client = Inr (Some jira)"
    then obtain jira where j: "fetchJiraMetadata k client = Inr (Some jira)" ..
    with Cons.prems obtain r' where r': "issue_of jiraMap k jira = Inr r'"
      and rest: "run_callbacks jiraMap client (acc @ [r']) cs = Inr rs"
      by (auto split: sum.splits)
    from issue_of_Inr [OF r'] have k: "code r' = k" by blast
    from Cons.IH [OF rest Cons.prems(2)] j r' k show ?thesis by auto
  qed
qed

lemma run_callbacks_resolves:
  "(\<And>k. k \<in> set cs \<Longrightarrow> fetchJiraMetadata k client \<noteq> Inr None \<Longrightarrow>
         \<exists>g. map_of jiraMap k = Some g \<and> g \<noteq> []) \<Longrightarrow>
   \<exists>rs. run_callbacks jiraMap client acc cs = Inr rs"
proof (induction cs arbitrary: acc)
  case Nil
  show ?case by simp
next
  case (Cons k cs)
  have tail: "\<exists>rs. run_callbacks jiraMap client acc' cs = Inr rs" for acc'
    by (rule Cons.IH) (simp add: Cons.prems)
  from fetch_cases [of k client] show ?case
  proof
    assume "fetchJiraMetadata k client = Inr None"
    with tail [of acc] show ?thesis by simp
  next
    assume "\<exists>jira. fetchJiraMetadata k client = Inr (Some jira)"
    then obtain jira where j: "fetchJiraMetadata k client = Inr (Some jira)" ..
    then have "\<exists>g. map_of jiraMap k = Some g \<and> g \<noteq> []"
      by (intro Cons.prems) simp_all
    then obtain g where "map_of jiraMap k = Some g" and "g \<noteq> []" by blast
    from issue_of_nonempty [OF this] obtain r where "issue_of jiraMap k jira = Inr r" ..
    with j tail [of "acc @ [r]"] show ?thesis by simp
  qed
qed

lemma set_settle_order [simp]: "set (settle_order settled ks) = set ks"
  by (simp add: settle_order_def)

lemma length_filter_settle_order:
  "length (filter P (settle_order settled ks)) = length (filter P ks)"
  by (simp add: settle_order_def filter_sort)

lemma settle_order_in_order:
  "sorted (map settled ks) \<Longrightarrow> settle_order settled ks = ks"
  by (simp add: settle_order_def sort_key_id_if_sorted)

lemma aggregate_codes:
  "aggregateJiraMetadata jiraMap client settled = Inr rs \<Longrightarrow>
   map code rs =
     filter (\<lambda>k. fetchJiraMetadata k client \<noteq> Inr None) (settle_order settled (map fst jiraMap))"
  unfolding aggregateJiraMetadata_def by (drule run_callbacks_codes) simp

lemma aggregate_records:
  "aggregateJiraMetadata jiraMap client settled = Inr rs \<Longrightarrow> r \<in> set rs \<Longrightarrow>
   \<exists>jira. fetchJiraMetadata (code r) client = Inr (Some jira) \<and>
          issue_of jiraMap (code r) jira = Inr r \<and> code r \<in> fst ` set jiraMap"
  unfolding aggregateJiraMetadata_def by (drule run_callbacks_records) auto

lemma aggregate_resolves:
  "(\<And>k g. (k, g) \<in> set jiraMap \<Longrightarrow> fetchJiraMetadata k client \<noteq> Inr None \<Longrightarrow>
           \<exists>g. map_of jiraMap k = Some g \<and> g \<noteq> []) \<Longrightarrow>
   \<exists>rs. aggregateJiraMetadata jiraMap client settled = Inr rs"
  unfolding aggregateJiraMetadata_def by (rule run_callbacks_resolves) auto

lemma nonempty_lookup:
  assumes "\<forall>g \<in> snd ` set jiraMap. g \<noteq> []" and "(k, g) \<in> set jiraMap"
  shows "\<exists>g. map_of jiraMap k = Some g \<and> g \<noteq> []"
proof -
  from assms(2) have "k \<in> fst ` set jiraMap" by force
  then obtain g' where g': "map_of jiraMap k = Some g'"
    by (cases "map_of jiraMap k") (auto simp: map_of_eq_None_iff)
  then have "(k, g') \<in> set jiraMap" by (rule map_of_SomeD)
  then have "g' \<in> snd ` set jiraMap" by force
  with assms(1) g' show ?thesis by blast
qed

section \<open>Lemmas on the two steps with their objects\<close>

text \<open>
  Whatever pattern objects there are, a run gives what the two steps give on the array
  of commits, and leaves that array as it was. A loop that went on with a pattern object
  of an earlier run would not: after a run on the commit \<open>monday\<close> the object of the
  filter step has \<open>lastIndex = 9\<close>, and the test of the same summary with it fails.
\<close>

lemma test_st_result:
  "r < length (regexps h) \<Longrightarrow>
   fst (test_st r s h) = fst (regex_test (regexps h ! r) s) \<and>
   regexps (snd (test_st r s h)) ! r = snd (regex_test (regexps h ! r) s) \<and>
   length (regexps (snd (test_st r s h))) = length (regexps h) \<and>
   commit_array (snd (test_st r s h)) = commit_array h"
  by (cases "regex_test (regexps h ! r) s") (simp add: test_st_def)

lemma filter_st_result:
  "r < length (regexps h) \<Longrightarrow>
   fst (filter_st r cs h) = filter_from (regexps h ! r) cs \<and>
   commit_array (snd (filter_st r cs h)) = commit_array h"
proof (induction cs arbitrary: h)
  case Nil
  show ?case by simp
next
  case (Cons c cs)
  obtain found h1 where t: "test_st r (summary c) h = (found, h1)"
    by (cases "test_st r (summary c) h")
  obtain kept h2 where f: "filter_st r cs h1 = (kept, h2)"
    by (cases "filter_st r cs h1")
  obtain b li where p: "regex_test (regexps h ! r) (summary c) = (b, li)"
    by (cases "regex_test (regexps h ! r) (summary c)")
  from test_st_result [OF Cons.prems, of "summary c"] t p
  have found: "found = b" and li: "regexps h1 ! r = li"
    and len: "r < length (regexps h1)" and arr: "commit_array h1 = commit_array h"
    using Cons.prems by simp_all
  from Cons.IH [OF len] f li arr
  have "kept = filter_from li cs" and "commit_array h2 = commit_array h" by simp_all
  with t f p found show ?case by (cases b) simp_all
qed

lemma filterMissingJiras_st_result:
  "fst (filterMissingJiras_st h) = filterMissingJiras (commit_array h) \<and>
   commit_array (snd (filterMissingJiras_st h)) = commit_array h"
proof -
  let ?h1 = "h\<lparr>regexps := regexps h @ [0]\<rparr>"
  have "length (regexps h) < length (regexps ?h1)" by simp
  from filter_st_result [OF this, of "commit_array h"]
  show ?thesis by (simp add: filterMissingJiras_st_def new_regex_def filterMissingJiras_def)
qed

lemma add_commit_st_result:
  "fst (add_commit_st (jiraMap, h) c) = add_commit jiraMap c \<and>
   commit_array (snd (add_commit_st (jiraMap, h) c)) = commit_array h"
  by (cases "string_match (summary c)")
    (simp_all add: add_commit_st_def match_st_def new_regex_def add_commit_def)

lemma foldl_add_commit_st:
  "fst (foldl add_commit_st (jiraMap, h) cs) = foldl add_commit jiraMap cs \<and>
   commit_array (snd (foldl add_commit_st (jiraMap, h) cs)) = commit_array h"
proof (induction cs arbitrary: jiraMap h)
  case Nil
  show ?case by simp
next
  case (Cons c cs)
  obtain m1 h1 where s: "add_commit_st (jiraMap, h) c = (m1, h1)"
    by (cases "add_commit_st (jiraMap, h) c")
  with add_commit_st_result [of jiraMap h c]
  have "m1 = add_commit jiraMap c" and "commit_array h1 = commit_array h" by simp_all
  with Cons.IH [of m1 h1] s show ?case by simp
qed

lemma extract_and_group_result:
  "fst (extract_and_group h) = mapCommitsToJiras (filterMissingJiras (commit_array h)) \<and>
   commit_array (snd (extract_and_group h)) = commit_array h"
proof -
  obtain filtered h1 where f: "filterMissingJiras_st h = (filtered, h1)"
    by (cases "filterMissingJiras_st h")
  with filterMissingJiras_st_result [of h]
  have "filtered = filterMissingJiras (commit_array h)" and "commit_array h1 = commit_array h"
    by simp_all
  with foldl_add_commit_st [of "[]" h1 filtered] f show ?thesis
    by (simp add: extract_and_group_def mapCommitsToJiras_st_def mapCommitsToJiras_def)
qed

lemma reused_pattern_differs:
  "fst (filterMissingJiras_st (snd (extract_and_group \<lparr>regexps = [], commit_array = [monday]\<rparr>)))
     = [monday] \<and>
   regexps (snd (extract_and_group \<lparr>regexps = [], commit_array = [monday]\<rparr>)) ! 0 = 9 \<and>
   fst (filter_st 0 [monday] (snd (extract_and_group \<lparr>regexps = [], commit_array = [monday]\<rparr>)))
     = []"
  by code_simp

section \<open>The examples, evaluated\<close>

lemma run_abc:
  "aggregateJiraMetadata [(''ABC-1'', [monday, tuesday, monday])] tracker second_first
   = Inr [abc_record]"
  by code_simp

lemma run_scenario:
  "aggregateJiraMetadata [(''ABC-1'', [monday, tuesday]), (''DEF-2'', [tuesday])]
     tracker second_first = Inr [scenario_record]"
  by code_simp

lemma fetch_DEF_2: "fetchJiraMetadata ''DEF-2'' tracker = Inr None"
  by code_simp

lemma run_as_issued:
  "aggregateJiraMetadata [(''ABC-1'', [monday, tuesday]), (''GHI-3'', [wednesday])]
     tracker as_issued = Inr [scenario_record, ghi_record]"
  by code_simp

lemma map_scenario:
  "mapCommitsToJiras [monday, tuesday] = [(''ABC-1'', [monday, tuesday]), (''DEF-2'', [tuesday])]"
  by code_simp

section \<open>The claims\<close>

subsection \<open>C1: the fields of a record\<close>

text \<open>
  C1. Every record that \<open>aggregateJiraMetadata\<close> returns belongs to a code of the
  mapping whose lookup gave metadata; its \<open>commits\<close> is the number of commits in that
  code's group, its \<open>lastCommitDate\<close> is the greatest date in the group, and its
  \<open>developers\<close> is the join, with a comma and a space, of a list of names in which each
  author of the group occurs exactly once.
\<close>

theorem aggregate_record_fields:
  assumes "aggregateJiraMetadata jiraMap client settled = Inr jiraList"
    and "r \<in> set jiraList"
  shows "\<exists>commitList jira names.
           map_of jiraMap (code r) = Some commitList \<and>
           fetchJiraMetadata (code r) client = Inr (Some jira) \<and>
           commits r = length commitList \<and>
           lastCommitDate r = Max (date ` set commitList) \<and>
           developers r = array_join '', '' names \<and>
           distinct names \<and> set names = author ` set commitList"
proof -
  from aggregate_records [OF assms] obtain jira
    where f: "fetchJiraMetadata (code r) client = Inr (Some jira)"
      and i: "issue_of jiraMap (code r) jira = Inr r"
    by blast
  from issue_of_Inr [OF i] obtain g
    where g: "map_of jiraMap (code r) = Some g"
      and n: "commits r = length g"
      and d: "lastCommitDate r = Max (date ` set g)"
      and a: "developers r = array_join '', '' (new_Set (map author (array_sort by_date_desc g)))"
    by blast
  let ?names = "new_Set (map author (array_sort by_date_desc g))"
  have "distinct ?names" and "set ?names = author ` set g" by simp_all
  with g f n d a show ?thesis by blast
qed

theorem aggregate_record_fields_witness:
  "aggregateJiraMetadata [(''ABC-1'', [monday, tuesday, monday])] tracker second_first
     = Inr [abc_record] \<and>
   commits abc_record = length [monday, tuesday, monday] \<and>
   lastCommitDate abc_record = Max (date ` set [monday, tuesday, monday]) \<and>
   (\<exists>names. developers abc_record = array_join '', '' names \<and> distinct names \<and>
            set names = author ` set [monday, tuesday, monday])"
proof -
  let ?g = "[monday, tuesday, monday]"
  have mem: "abc_record \<in> set [abc_record]" by simp
  from aggregate_record_fields [OF run_abc mem]
  obtain commitList jira names where
    g: "map_of [(''ABC-1'', ?g)] (code abc_record) = Some commitList" and
    f: "fetchJiraMetadata (code abc_record) tracker = Inr (Some jira)" and
    n: "commits abc_record = length commitList" and
    d: "lastCommitDate abc_record = Max (date ` set commitList)" and
    a: "developers abc_record = array_join '', '' names" "distinct names"
       "set names = author ` set commitList"
    by blast
  have "code abc_record = ''ABC-1''" by (simp add: abc_record_def)
  with g have "commitList = ?g" by simp
  with n d a run_abc show ?thesis by blast
qed

subsection \<open>C2: codes without metadata\<close>

text \<open>
  C2. For a mapping with distinct keys, as the keys of an object are: a code whose
  lookup resolved to \<open>null\<close> has no record in the result, the codes of the records are
  the codes whose lookup gave metadata, each once, and the length of the result is the
  number of these codes. The result exists whenever no group of the mapping is empty.
\<close>

theorem aggregate_omits_failed_fetches:
  assumes "distinct (map fst jiraMap)"
  shows "((\<forall>g \<in> snd ` set jiraMap. g \<noteq> []) \<longrightarrow>
            (\<exists>rs. aggregateJiraMetadata jiraMap client settled = Inr rs)) \<and>
         (\<forall>rs. aggregateJiraMetadata jiraMap client settled = Inr rs \<longrightarrow>
            length rs = card {k \<in> fst ` set jiraMap. fetchJiraMetadata k client \<noteq> Inr None} \<and>
            distinct (map code rs) \<and>
            code ` set rs = {k \<in> fst ` set jiraMap. fetchJiraMetadata k client \<noteq> Inr None} \<and>
            (\<forall>k. fetchJiraMetadata k client = Inr None \<longrightarrow> k \<notin> code ` set rs))"
proof (intro conjI impI allI)
  assume "\<forall>g \<in> snd ` set jiraMap. g \<noteq> []"
  then show "\<exists>rs. aggregateJiraMetadata jiraMap client settled = Inr rs"
    by (intro aggregate_resolves nonempty_lookup)
next
  fix rs
  assume run: "aggregateJiraMetadata jiraMap client settled = Inr rs"
  let ?ok = "\<lambda>k. fetchJiraMetadata k client \<noteq> Inr None"
  let ?ks = "map fst jiraMap"
  note codes = aggregate_codes [OF run]
  have "length rs = length (map code rs)" by simp
  also have "\<dots> = length (filter ?ok ?ks)"
    unfolding codes by (rule length_filter_settle_order)
  also have "\<dots> = card (set (filter ?ok ?ks))"
  proof -
    from assms have "distinct (filter ?ok ?ks)" by (rule distinct_filter)
    then show ?thesis by (rule distinct_card [symmetric])
  qed
  also have "set (filter ?ok ?ks) = {k \<in> fst ` set jiraMap. ?ok k}" by auto
  finally show "length rs = card {k \<in> fst ` set jiraMap. ?ok k}" .
  show "distinct (map code rs)"
    unfolding codes settle_order_def using assms by simp
  have "set (map code rs) = {k \<in> fst ` set jiraMap. ?ok k}"
    unfolding codes by auto
  then show "code ` set rs = {k \<in> fst ` set jiraMap. ?ok k}" by simp
  fix k
  assume "fetchJiraMetadata k client = Inr None"
  then have "k \<notin> set (map code rs)" unfolding codes by simp
  then show "k \<notin> code ` set rs" by simp
qed

theorem aggregate_omits_failed_fetches_witness:
  "distinct (map fst [(''ABC-1'', [monday, tuesday]), (''DEF-2'', [tuesday])]) \<and>
   aggregateJiraMetadata [(''ABC-1'', [monday, tuesday]), (''DEF-2'', [tuesday])]
     tracker second_first = Inr [scenario_record] \<and>
   length [scenario_record] =
     card {k \<in> fst ` set [(''ABC-1'', [monday, tuesday]), (''DEF-2'', [tuesday])].
             fetchJiraMetadata k tracker \<noteq> Inr None} \<and>
   fetchJiraMetadata ''DEF-2'' tracker = Inr None \<and>
   ''DEF-2'' \<notin> code ` set [scenario_record]"
proof -
  let ?m = "[(''ABC-1'', [monday, tuesday]), (''DEF-2'', [tuesday])]"
  have d: "distinct (map fst ?m)" by simp
  note t = aggregate_omits_failed_fetches [OF d, of tracker second_first,
      THEN conjunct2, rule_format, OF run_scenario]
  have len: "length [scenario_record] =
     card {k \<in> fst ` set ?m. fetchJiraMetadata k tracker \<noteq> Inr None}"
    by (rule t [THEN conjunct1])
  have out: "''DEF-2'' \<notin> code ` set [scenario_record]"
    by (rule t [THEN conjunct2, THEN conjunct2, THEN conjunct2, rule_format, OF fetch_DEF_2])
  from d run_scenario len fetch_DEF_2 out show ?thesis by (intro conjI)
qed

subsection \<open>C3: the filter step\<close>

text \<open>
  C3 (the filter step returns exactly the commits whose summary contains a code). Every
  commit that the code returns has a code in its summary (\<open>filterMissingJiras_sound\<close>),
  but not every such commit is returned: the pattern object of \<open>filterMissingJiras\<close> is
  global, so \<open>test\<close> resumes at the \<open>lastIndex\<close> that the previous commit's match
  left. After the match \<open>ABC-123\<close> in the first summary \<open>lastIndex\<close> is 7, beyond the
  end of the second summary \<open>DEF-4\<close>; the second commit is dropped although its summary
  is a code.
\<close>

theorem filterMissingJiras_drops_commit_with_code:
  "filterMissingJiras
     [\<lparr>date = 1, author = ''A'', summary = ''ABC-123 one''\<rparr>,
      \<lparr>date = 2, author = ''B'', summary = ''DEF-4''\<rparr>]
   = [\<lparr>date = 1, author = ''A'', summary = ''ABC-123 one''\<rparr>]
   \<and> has_code ''DEF-4''
   \<and> string_match ''DEF-4'' = Some [''DEF-4'']"
proof -
  have kept: "filterMissingJiras
     [\<lparr>date = 1, author = ''A'', summary = ''ABC-123 one''\<rparr>,
      \<lparr>date = 2, author = ''B'', summary = ''DEF-4''\<rparr>]
   = [\<lparr>date = 1, author = ''A'', summary = ''ABC-123 one''\<rparr>]"
    by code_simp
  have found: "string_match ''DEF-4'' = Some [''DEF-4'']"
    by code_simp
  have "''DEF-4'' = [] @ ''DEF'' @ ''-'' @ ''4'' @ [] \<and>
        ''DEF'' \<noteq> [] \<and> list_all word_char ''DEF'' \<and> ''4'' \<noteq> [] \<and> list_all digit_char ''4''"
    by (simp add: word_char_def digit_char_def)
  then have "has_code ''DEF-4''"
    unfolding has_code_def by blast
  with kept found show ?thesis by simp
qed

subsection \<open>C4: the filter step and the group step\<close>

text \<open>
  C4 (after the filter step and the group step, every code of every commit's summary is
  a key of the mapping, with the commit in its group). The same defect breaks it: the
  commit that the filter step drops never reaches the group step, and its code \<open>DEF-4\<close>
  is no key of the result, while the group step alone makes it one.
\<close>

theorem pipeline_loses_code_of_dropped_commit:
  "mapCommitsToJiras (filterMissingJiras
     [\<lparr>date = 1, author = ''A'', summary = ''ABC-123 one''\<rparr>,
      \<lparr>date = 2, author = ''B'', summary = ''DEF-4''\<rparr>])
   = [(''ABC-123'', [\<lparr>date = 1, author = ''A'', summary = ''ABC-123 one''\<rparr>])]
   \<and> mapCommitsToJiras
     [\<lparr>date = 1, author = ''A'', summary = ''ABC-123 one''\<rparr>,
      \<lparr>date = 2, author = ''B'', summary = ''DEF-4''\<rparr>]
   = [(''ABC-123'', [\<lparr>date = 1, author = ''A'', summary = ''ABC-123 one''\<rparr>]),
      (''DEF-4'', [\<lparr>date = 2, author = ''B'', summary = ''DEF-4''\<rparr>])]"
proof -
  have piped: "mapCommitsToJiras (filterMissingJiras
     [\<lparr>date = 1, author = ''A'', summary = ''ABC-123 one''\<rparr>,
      \<lparr>date = 2, author = ''B'', summary = ''DEF-4''\<rparr>])
   = [(''ABC-123'', [\<lparr>date = 1, author = ''A'', summary = ''ABC-123 one''\<rparr>])]"
    by code_simp
  have alone: "mapCommitsToJiras
     [\<lparr>date = 1, author = ''A'', summary = ''ABC-123 one''\<rparr>,
      \<lparr>date = 2, author = ''B'', summary = ''DEF-4''\<rparr>]
   = [(''ABC-123'', [\<lparr>date = 1, author = ''A'', summary = ''ABC-123 one''\<rparr>]),
      (''DEF-4'', [\<lparr>date = 2, author = ''B'', summary = ''DEF-4''\<rparr>])]"
    by code_simp
  from piped alone show ?thesis by simp
qed

subsection \<open>C5: the metadata fetcher\<close>

text \<open>
  C5. The promise of \<open>fetchJiraMetadata\<close> never rejects. It resolves to \<open>null\<close> when
  the lookup rejects and when the callback throws on the answer. When it resolves to
  metadata, the title is the summary of the issue, the status is the name of its status,
  \<open>fixVersions\<close> is \<open>No Fix Version\<close> if the issue has no fix versions, and the
  assignee is \<open>Unassigned\<close> if the issue has none; and on an issue of the tracker's
  form it resolves to the four properties, with these defaults.
\<close>

theorem fetchJiraMetadata_defaults_and_null:
  "(\<exists>r. fetchJiraMetadata k client = Inr r) \<and>
   (\<forall>e. client k = Inl e \<longrightarrow> fetchJiraMetadata k client = Inr None) \<and>
   (\<forall>issue e. client k = Inr issue \<and> issue_metadata issue = Inl e \<longrightarrow>
        fetchJiraMetadata k client = Inr None) \<and>
   (\<forall>jira. fetchJiraMetadata k client = Inr (Some jira) \<longrightarrow>
      (\<exists>issue issue_fields status_v assignee_v.
         client k = Inr issue \<and>
         get_prop issue ''fields'' = Inr issue_fields \<and>
         get_prop issue_fields ''summary'' = Inr (title jira) \<and>
         get_prop issue_fields ''status'' = Inr status_v \<and>
         get_prop status_v ''name'' = Inr (status jira) \<and>
         get_prop issue_fields ''assignee'' = Inr assignee_v \<and>
         (get_prop issue_fields ''fixVersions'' = Inr (JArr []) \<longrightarrow>
            fixVersions jira = ''No Fix Version'') \<and>
         (\<not> truthy assignee_v \<longrightarrow> assignee jira = JStr ''Unassigned''))) \<and>
   (\<forall>t s ns a. client k = Inr (jira_issue t s ns a) \<longrightarrow>
      fetchJiraMetadata k client =
        Inr (Some \<lparr>title = t, status = s,
                   fixVersions = (if array_join '', '' ns = [] then ''No Fix Version''
                                  else array_join '', '' ns),
                   assignee = (case a of None \<Rightarrow> JStr ''Unassigned'' | Some d \<Rightarrow> d)\<rparr>))"
proof (intro conjI allI impI)
  show "\<exists>r. fetchJiraMetadata k client = Inr r"
    using fetch_cases [of k client] by blast
next
  fix e assume "client k = Inl e"
  then show "fetchJiraMetadata k client = Inr None"
    by (simp add: fetchJiraMetadata_def)
next
  fix issue e assume "client k = Inr issue \<and> issue_metadata issue = Inl e"
  then show "fetchJiraMetadata k client = Inr None"
    by (simp add: fetchJiraMetadata_def)
next
  fix jira assume ok: "fetchJiraMetadata k client = Inr (Some jira)"
  then obtain issue where i: "client k = Inr issue" and m: "issue_metadata issue = Inr jira"
    by (auto simp: fetchJiraMetadata_def split: sum.splits)
  from issue_metadata_defaults [OF m] i
  show "\<exists>issue issue_fields status_v assignee_v.
         client k = Inr issue \<and>
         get_prop issue ''fields'' = Inr issue_fields \<and>
         get_prop issue_fields ''summary'' = Inr (title jira) \<and>
         get_prop issue_fields ''status'' = Inr status_v \<and>
         get_prop status_v ''name'' = Inr (status jira) \<and>
         get_prop issue_fields ''assignee'' = Inr assignee_v \<and>
         (get_prop issue_fields ''fixVersions'' = Inr (JArr []) \<longrightarrow>
            fixVersions jira = ''No Fix Version'') \<and>
         (\<not> truthy assignee_v \<longrightarrow> assignee jira = JStr ''Unassigned'')"
    by blast
next
  fix t s ns a assume "client k = Inr (jira_issue t s ns a)"
  then show "fetchJiraMetadata k client =
        Inr (Some \<lparr>title = t, status = s,
                   fixVersions = (if array_join '', '' ns = [] then ''No Fix Version''
                                  else array_join '', '' ns),
                   assignee = (case a of None \<Rightarrow> JStr ''Unassigned'' | Some d \<Rightarrow> d)\<rparr>)"
    by (simp add: fetchJiraMetadata_def issue_metadata_jira_issue)
qed

theorem fetchJiraMetadata_defaults_and_null_witness:
  "fetchJiraMetadata ''ABC-1'' tracker =
     Inr (Some \<lparr>title = JStr ''T1'', status = JStr ''Open'',
                fixVersions = ''No Fix Version'', assignee = JStr ''Unassigned''\<rparr>) \<and>
   fetchJiraMetadata ''DEF-2'' tracker = Inr None \<and>
   fetchJiraMetadata ''ABC-1'' html_tracker = Inr None"
proof -
  have issue: "tracker ''ABC-1'' = Inr (jira_issue (JStr ''T1'') (JStr ''Open'') [] None)"
    by (simp add: tracker_def open_issue_def jira_issue_def)
  have rejected: "tracker ''DEF-2'' = Inl RequestError"
    by (simp add: tracker_def)
  have html: "html_tracker ''ABC-1'' = Inr (JStr ''<html>'') \<and>
              issue_metadata (JStr ''<html>'') = Inl TypeError"
    by (simp add: html_tracker_def issue_metadata_def)
  note ok = fetchJiraMetadata_defaults_and_null [of "''ABC-1''" tracker]
  note no = fetchJiraMetadata_defaults_and_null [of "''DEF-2''" tracker]
  note bad = fetchJiraMetadata_defaults_and_null [of "''ABC-1''" html_tracker]
  have 1: "fetchJiraMetadata ''ABC-1'' tracker =
     Inr (Some \<lparr>title = JStr ''T1'', status = JStr ''Open'',
                fixVersions = ''No Fix Version'', assignee = JStr ''Unassigned''\<rparr>)"
    using ok [THEN conjunct2, THEN conjunct2, THEN conjunct2, THEN conjunct2, rule_format, OF issue]
    by simp
  have 2: "fetchJiraMetadata ''DEF-2'' tracker = Inr None"
    by (rule no [THEN conjunct2, THEN conjunct1, rule_format, OF rejected])
  have 3: "fetchJiraMetadata ''ABC-1'' html_tracker = Inr None"
    by (rule bad [THEN conjunct2, THEN conjunct2, THEN conjunct1, rule_format, OF html])
  from 1 2 3 show ?thesis by (intro conjI)
qed

subsection \<open>C6: the order of the records\<close>

text \<open>
  C6 (the result is in the order of the keys of the mapping, whatever the order in which
  the lookups complete). It is not: each record is pushed by the callback of its own
  lookup, so the result is in the order in which the lookups settle. Here both lookups
  give metadata, the one for the first key \<open>ABC-1\<close> settles last, and its record comes
  last.
\<close>

theorem aggregate_order_counterexample:
  "map fst [(''ABC-1'', [monday, tuesday]), (''GHI-3'', [wednesday])] = [''ABC-1'', ''GHI-3''] \<and>
   aggregateJiraMetadata [(''ABC-1'', [monday, tuesday]), (''GHI-3'', [wednesday])]
     tracker second_first = Inr [ghi_record, scenario_record] \<and>
   map code [ghi_record, scenario_record] = [''GHI-3'', ''ABC-1'']"
proof -
  have "aggregateJiraMetadata [(''ABC-1'', [monday, tuesday]), (''GHI-3'', [wednesday])]
     tracker second_first = Inr [ghi_record, scenario_record]"
    by code_simp
  then show ?thesis by (simp add: ghi_record_def scenario_record_def)
qed

text \<open>
  C6, amended. The codes of the result are the codes whose lookup gave metadata, in the
  order in which the lookups settle; when the lookups settle in the order of the keys,
  this is the order of the keys of the mapping.
\<close>

theorem aggregate_order_is_settle_order:
  assumes "aggregateJiraMetadata jiraMap client settled = Inr rs"
  shows "map code rs =
           filter (\<lambda>k. fetchJiraMetadata k client \<noteq> Inr None)
             (settle_order settled (map fst jiraMap)) \<and>
         (sorted (map settled (map fst jiraMap)) \<longrightarrow>
            map code rs =
              filter (\<lambda>k. fetchJiraMetadata k client \<noteq> Inr None) (map fst jiraMap))"
  using aggregate_codes [OF assms] by (simp add: settle_order_in_order)

theorem aggregate_order_is_settle_order_witness:
  "aggregateJiraMetadata [(''ABC-1'', [monday, tuesday]), (''GHI-3'', [wednesday])]
     tracker as_issued = Inr [scenario_record, ghi_record] \<and>
   sorted (map as_issued (map fst [(''ABC-1'', [monday, tuesday]), (''GHI-3'', [wednesday])])) \<and>
   map code [scenario_record, ghi_record] =
     filter (\<lambda>k. fetchJiraMetadata k tracker \<noteq> Inr None)
       (settle_order as_issued (map fst [(''ABC-1'', [monday, tuesday]), (''GHI-3'', [wednesday])])) \<and>
   map code [scenario_record, ghi_record] =
     filter (\<lambda>k. fetchJiraMetadata k tracker \<noteq> Inr None)
       (map fst [(''ABC-1'', [monday, tuesday]), (''GHI-3'', [wednesday])])"
proof -
  let ?m = "[(''ABC-1'', [monday, tuesday]), (''GHI-3'', [wednesday])]"
  have s: "sorted (map as_issued (map fst ?m))" by (simp add: as_issued_def)
  note t = aggregate_order_is_settle_order [OF run_as_issued]
  from run_as_issued s t [THEN conjunct1] t [THEN conjunct2, rule_format, OF s]
  show ?thesis by (intro conjI)
qed

subsection \<open>C7: the order of the keys and of the groups\<close>

text \<open>
  C7. The keys of the mapping that \<open>mapCommitsToJiras\<close> returns are the codes of the
  commit list, each once, in the order in which each is first met; and the group of each
  key holds the commits in which the code was met, in the order of the commit list (once
  for each occurrence).
\<close>

theorem mapCommitsToJiras_insertion_order:
  "map fst (mapCommitsToJiras commits') = first_seen (map fst (code_pairs commits')) \<and>
   distinct (map fst (mapCommitsToJiras commits')) \<and>
   map snd (mapCommitsToJiras commits') =
     map (\<lambda>k. commits_of k (code_pairs commits')) (map fst (mapCommitsToJiras commits'))"
  by (simp add: mapCommitsToJiras_eq_grouped grouped_def comp_def)

subsection \<open>C8: the failure of the traversal\<close>

text \<open>
  C8 (when the traversal fails, the message is written, and the report step still runs
  and produces an empty table). The report step runs, but on \<open>undefined\<close>, the value of
  the \<open>.catch\<close> callback: it produces no table, not even an empty one.
\<close>

theorem listJira_failure_counterexample:
  "Table [] \<notin> set (fst (listJira plain_date (Inr []) tracker as_issued))"
  by (simp add: listJira_def getCommitsUntil_def generateJiraTermTable_def)

text \<open>
  C8, amended. When the traversal fails (the walk rejects, or finds no commit), what
  \<open>listJira\<close> writes to standard output is the message of the error and nothing else:
  no table is rendered. The report step still runs, on \<open>undefined\<close>, and the chain ends
  as that call does.
\<close>

theorem listJira_failure_prints_message:
  "fst (listJira format_date (Inl message) client settled) = [Line message] \<and>
   fst (listJira format_date (Inr []) client settled) =
     [Line ''Current repo does not exist or contains no commits''] \<and>
   snd (listJira format_date (Inl message) client settled) =
     (case generateJiraTermTable format_date None of Inl e \<Rightarrow> Some e | Inr out \<Rightarrow> None) \<and>
   snd (listJira format_date (Inr []) client settled) =
     (case generateJiraTermTable format_date None of Inl e \<Rightarrow> Some e | Inr out \<Rightarrow> None)"
  by (simp add: listJira_def getCommitsUntil_def generateJiraTermTable_def)

subsection \<open>C9: two runs\<close>

text \<open>
  C9. A second run of the filter step and the group step, started with the objects that
  a first run on the same array of commits has left (the pattern objects with their
  \<open>lastIndex\<close>, the array itself), gives the same mapping as the first: the same keys
  in the same order, with the same groups. Each run creates its own pattern objects, and
  no run writes to the array. The mapping is the one of \<open>mapCommitsToJiras\<close> after
  \<open>filterMissingJiras\<close>, whatever pattern objects there were before the run.
\<close>

theorem extraction_and_grouping_twice:
  "fst (extract_and_group (snd (extract_and_group h))) = fst (extract_and_group h) \<and>
   commit_array (snd (extract_and_group h)) = commit_array h \<and>
   fst (extract_and_group h) = mapCommitsToJiras (filterMissingJiras (commit_array h))"
  by (simp add: extract_and_group_result)

subsection \<open>C10: no empty group\<close>

text \<open>
  C10. No group of the mapping that \<open>mapCommitsToJiras\<close> returns is empty, and on such a
  mapping \<open>aggregateJiraMetadata\<close> returns its list: no callback reads the date of the
  first element of an empty array.
\<close>

theorem mapCommitsToJiras_groups_nonempty:
  "(\<forall>g \<in> snd ` set (mapCommitsToJiras commits'). g \<noteq> []) \<and>
   (\<exists>rs. aggregateJiraMetadata (mapCommitsToJiras commits') client settled = Inr rs)"
proof
  show ne: "\<forall>g \<in> snd ` set (mapCommitsToJiras commits'). g \<noteq> []"
    unfolding mapCommitsToJiras_eq_grouped by (rule grouped_nonempty)
  show "\<exists>rs. aggregateJiraMetadata (mapCommitsToJiras commits') client settled = Inr rs"
    by (intro aggregate_resolves nonempty_lookup [OF ne])
qed

theorem mapCommitsToJiras_groups_nonempty_witness:
  "mapCommitsToJiras [monday, tuesday] = [(''ABC-1'', [monday, tuesday]), (''DEF-2'', [tuesday])] \<and>
   [monday, tuesday] \<noteq> [] \<and> [tuesday] \<noteq> [] \<and>
   (\<exists>rs. aggregateJiraMetadata (mapCommitsToJiras [monday, tuesday]) tracker second_first = Inr rs)"
proof -
  note t = mapCommitsToJiras_groups_nonempty [of "[monday, tuesday]" tracker second_first]
  from t [THEN conjunct1] have "[monday, tuesday] \<noteq> []" and "[tuesday] \<noteq> []"
    unfolding map_scenario by simp_all
  with map_scenario t [THEN conjunct2] show ?thesis by (intro conjI)
qed

end
